theory Spec2Isabelle
  imports Main "HOL-Library.Word" "HOL-Library.Char_ord" "HOL-Library.List_Lexorder"
    "HOL-Library.Multiset"
begin

section \<open>The PCIe UART bridge of \<open>nereid.py\<close>\<close>

text \<open>
  \<open>PCIeUART.__init__\<close> (nereid.py, lines 128-158) describes synchronous hardware: a list
  of combinational assignments (\<open>self.comb\<close>) and one clocked assignment (\<open>self.sync\<close>).
  One clock cycle is one step. The signals the bridge does not drive are its inputs in a
  cycle: the write strobes \<open>re\<close> of the two \<open>CSR\<close> registers, a bus write to the
  \<open>CSRStorage\<close> register \<open>tx_data\<close>, and the signals the UART drives on the two stream
  endpoints (\<open>uart.sink.valid\<close>, \<open>uart.sink.data\<close>, \<open>uart.source.ready\<close>).
\<close>

record bridge_in =
  rx_ready_re  :: bool
  tx_valid_re  :: bool
  tx_data_wr   :: "8 word option"
  sink_valid   :: bool
  sink_data    :: "8 word"
  source_ready :: bool

text \<open>
  The clocked signals: \<open>uart.source.valid\<close>, assigned in \<open>self.sync\<close>, and the storage of
  \<open>tx_data\<close>, which the CSR bus writes at a clock edge. Both reset to 0.
\<close>

record bridge_regs =
  source_valid    :: bool
  tx_data_storage :: "8 word"

text \<open>The combinationally driven signals (lines 141-145 and 155-158).\<close>

record bridge_out =
  rx_valid_status :: bool
  sink_ready      :: bool
  rx_data_status  :: "8 word"
  tx_ready_status :: bool
  source_data     :: "8 word"

definition reset_regs :: bridge_regs where
  "reset_regs = \<lparr>source_valid = False, tx_data_storage = 0\<rparr>"

definition comb :: "bridge_regs \<Rightarrow> bridge_in \<Rightarrow> bridge_out" where
  "comb r i =
     \<lparr>rx_valid_status = sink_valid i,
      sink_ready      = rx_ready_re i,
      rx_data_status  = sink_data i,
      tx_ready_status = (\<not> source_valid r),
      source_data     = tx_data_storage r\<rparr>"

definition sync :: "bridge_regs \<Rightarrow> bridge_in \<Rightarrow> bridge_regs" where
  "sync r i =
     \<lparr>source_valid =
        (if tx_valid_re i then True
         else if source_ready i then False
         else source_valid r),
      tx_data_storage =
        (case tx_data_wr i of Some b \<Rightarrow> b | None \<Rightarrow> tx_data_storage r)\<rparr>"

text \<open>Running the bridge over the inputs of successive cycles.\<close>

definition run :: "bridge_regs \<Rightarrow> bridge_in list \<Rightarrow> bridge_regs" where
  "run r ins = foldl sync r ins"

fun states :: "bridge_regs \<Rightarrow> bridge_in list \<Rightarrow> bridge_regs list" where
  "states r [] = []"
| "states r (i # ins) = r # states (sync r i) ins"

fun outputs :: "bridge_regs \<Rightarrow> bridge_in list \<Rightarrow> bridge_out list" where
  "outputs r [] = []"
| "outputs r (i # ins) = comb r i # outputs (sync r i) ins"

text \<open>The two states of the TX path, read off \<open>uart.source.valid\<close>.\<close>

datatype tx_state = Idle | Transmitting

definition tx_state_of :: "bridge_regs \<Rightarrow> tx_state" where
  "tx_state_of r = (if source_valid r then Transmitting else Idle)"

section \<open>Interrupt index allocation and composition in \<open>NereidSoC.__init__\<close>\<close>

datatype error = AssertionError | KeyError | IndexError

text \<open>
  What the composer accumulates and the header generator later reads: the names registered
  with \<open>add_csr\<close> (in call order), the constants published with \<open>add_constant\<close> (in call
  order), the names registered with \<open>add_interrupt\<close>, and the combinational wiring
  \<open>pcie_msi.irqs[i].eq(v)\<close> as pairs of line index and signal. Signals are opaque
  values of type \<open>'sig\<close>. \<open>add_csr\<close>, \<open>add_constant\<close> and \<open>add_interrupt\<close> belong to the
  LiteX library; here each records its argument at the end of its list.
\<close>

record 'sig soc =
  csrs                     :: "string list"
  constants                :: "(string \<times> int) list"
  interrupts               :: "string list"
  irq_wiring               :: "(nat \<times> 'sig) list"
  integrated_main_ram_size :: int

definition add_csr :: "string \<Rightarrow> 'sig soc \<Rightarrow> 'sig soc" where
  "add_csr name s = s\<lparr>csrs := csrs s @ [name]\<rparr>"

definition add_constant :: "string \<Rightarrow> int \<Rightarrow> 'sig soc \<Rightarrow> 'sig soc" where
  "add_constant name v s = s\<lparr>constants := constants s @ [(name, v)]\<rparr>"

definition add_interrupt :: "string \<Rightarrow> 'sig soc \<Rightarrow> 'sig soc" where
  "add_interrupt name s = s\<lparr>interrupts := interrupts s @ [name]\<rparr>"

definition comb_irq :: "nat \<Rightarrow> 'sig \<Rightarrow> 'sig soc \<Rightarrow> 'sig soc" where
  "comb_irq i v s = s\<lparr>irq_wiring := irq_wiring s @ [(i, v)]\<rparr>"

text \<open>
  \<open>sorted(self.msis.items())\<close>: a dict is a list of items with distinct keys, so the
  tuple order of Python never gets past the keys, and strings are ordered
  lexicographically by code point.
\<close>

definition sorted_items :: "(string \<times> 'sig) list \<Rightarrow> (string \<times> 'sig) list" where
  "sorted_items d = sort_key fst d"

text \<open>
  The loop of lines 122-124 over \<open>enumerate(sorted(self.msis.items()))\<close>. \<open>irqs\<close> is a
  signal of \<open>width\<close> bits (the width \<open>LitePCIeMSI()\<close> chooses); indexing it at or beyond
  its width raises.
\<close>

fun msi_loop :: "nat \<Rightarrow> (nat \<times> string \<times> 'sig) list \<Rightarrow> 'sig soc \<Rightarrow> error + 'sig soc" where
  "msi_loop width [] s = Inr s"
| "msi_loop width ((i, k, v) # rest) s =
     (if width \<le> i then Inl IndexError
      else msi_loop width rest (add_constant (k @ ''_INTERRUPT'') (int i) (comb_irq i v s)))"

definition allocate_msis :: "nat \<Rightarrow> (string \<times> 'sig) list \<Rightarrow> 'sig soc \<Rightarrow> error + 'sig soc" where
  "allocate_msis width msis s = msi_loop width (enumerate 0 (sorted_items msis)) s"

text \<open>Reading a published interrupt constant back by the source's name.\<close>

definition interrupt_index :: "'sig soc \<Rightarrow> string \<rightharpoonup> int" where
  "interrupt_index s k = map_of (constants s) (k @ ''_INTERRUPT'')"

text \<open>
  The composition order of \<open>NereidSoC.__init__\<close> (lines 56-165) as far as it decides the
  CSR list and the constants. \<open>SoCSDRAM.__init__\<close> is the library's: its result is the
  parameter \<open>parent\<close>, a function of the \<open>with_uart\<close> flag it is given, and it stores the
  \<open>integrated_main_ram_size\<close> argument \<open>0x10000\<close>. \<open>body\<close> takes the dict \<open>self.msis\<close> as
  an argument; \<open>NereidSoC_init\<close> supplies the dict literal of lines 118-121.
\<close>

definition NereidSoC_body ::
    "nat \<Rightarrow> (string \<times> 'sig) list \<Rightarrow> bool \<Rightarrow> (bool \<Rightarrow> 'sig soc) \<Rightarrow> error + 'sig soc" where
  "NereidSoC_body width msis with_pcie_uart parent =
     (let s = (parent (\<not> with_pcie_uart))\<lparr>integrated_main_ram_size := 0x10000\<rparr>;
          s = add_csr ''crg'' s;
          s = add_csr ''dna'' s;
          s = add_csr ''xadc'' s;
          s = (if integrated_main_ram_size s = 0 then add_csr ''ddrphy'' s else s);
          s = add_csr ''pcie_phy'' s;
          s = add_csr ''pcie_dma'' s;
          s = add_csr ''pcie_msi'' s
      in case allocate_msis width msis s of
           Inl e \<Rightarrow> Inl e
         | Inr s \<Rightarrow>
             Inr (if with_pcie_uart
                  then add_csr ''pcie_uart'' (add_interrupt ''uart'' (add_csr ''uart'' s))
                  else s))"

definition NereidSoC_init ::
    "nat \<Rightarrow> 'sig \<Rightarrow> 'sig \<Rightarrow> bool \<Rightarrow> (bool \<Rightarrow> 'sig soc) \<Rightarrow> error + 'sig soc" where
  "NereidSoC_init width writer_irq reader_irq with_pcie_uart parent =
     NereidSoC_body width [(''DMA_WRITER'', writer_irq), (''DMA_READER'', reader_irq)]
       with_pcie_uart parent"

text \<open>
  \<open>generate_software_header\<close> (lines 178-182) hands the CSR regions and the constants to
  the library's \<open>get_csr_header\<close> and writes what it returns.
\<close>

definition generate_software_header ::
    "(string list \<Rightarrow> (string \<times> int) list \<Rightarrow> string) \<Rightarrow> 'sig soc \<Rightarrow> string" where
  "generate_software_header get_csr_header s = get_csr_header (csrs s) (constants s)"

section \<open>The platform constructor of \<open>radiona_ulx3s.py\<close>\<close>

text \<open>
  \<open>Platform.__init__\<close> (lines 252-256). The pin tables \<open>_io_common\<close>, \<open>_io_1_7\<close> and
  \<open>_io_2_0\<close> are parameters, and so is the parent constructor
  \<open>LatticePlatform.__init__\<close>, which acts on a world \<open>'w\<close> and may fail itself.
\<close>

definition Platform_init ::
    "(string \<Rightarrow> 'io list \<Rightarrow> string \<Rightarrow> 'w \<Rightarrow> (error + 'p) \<times> 'w) \<Rightarrow>
     'io list \<Rightarrow> 'io list \<Rightarrow> 'io list \<Rightarrow> string \<Rightarrow> string \<Rightarrow> string \<Rightarrow> 'w \<Rightarrow> (error + 'p) \<times> 'w" where
  "Platform_init LatticePlatform_init io_common io_1_7 io_2_0 device revision toolchain w =
     (if device \<notin> set [''LFE5U-12F'', ''LFE5U-25F'', ''LFE5U-45F'', ''LFE5U-85F'']
      then (Inl AssertionError, w)
      else if revision \<notin> set [''1.7'', ''2.0'']
      then (Inl AssertionError, w)
      else case map_of [(''1.7'', io_1_7), (''2.0'', io_2_0)] revision of
             None \<Rightarrow> (Inl KeyError, w)
           | Some io_rev \<Rightarrow>
               LatticePlatform_init (device @ ''-6BG381C'') (io_common @ io_rev) toolchain w)"

section \<open>Helper facts\<close>

lemma length_states [simp]: "length (states r ins) = length ins"
  by (induction ins arbitrary: r) simp_all

lemma length_outputs [simp]: "length (outputs r ins) = length ins"
  by (induction ins arbitrary: r) simp_all

lemma states_nth: "t < length ins \<Longrightarrow> states r ins ! t = run r (take t ins)"
proof (induction ins arbitrary: r t)
  case Nil
  then show ?case by simp
next
  case (Cons i ins)
  then show ?case by (cases t) (simp_all add: run_def)
qed

lemma outputs_nth:
  "t < length ins \<Longrightarrow> outputs r ins ! t = comb (run r (take t ins)) (ins ! t)"
proof (induction ins arbitrary: r t)
  case Nil
  then show ?case by simp
next
  case (Cons i ins)
  then show ?case by (cases t) (simp_all add: run_def)
qed

lemma run_Nil [simp]: "run r [] = r"
  by (simp add: run_def)

lemma run_Cons [simp]: "run r (i # ins) = run (sync r i) ins"
  by (simp add: run_def)

lemma run_append [simp]: "run r (xs @ ys) = run (run r xs) ys"
  by (simp add: run_def)

lemma run_storage_unwritten:
  "\<forall>g\<in>set ins. tx_data_wr g = None \<Longrightarrow> tx_data_storage (run r ins) = tx_data_storage r"
  by (induction ins arbitrary: r) (simp_all add: sync_def)

lemma run_valid_held:
  "source_valid r \<Longrightarrow> \<forall>x\<in>set ins. \<not> source_ready x \<Longrightarrow> source_valid (run r ins)"
  by (induction ins arbitrary: r) (simp_all add: sync_def)

lemma sync_pulse_valid: "tx_valid_re p \<Longrightarrow> source_valid (sync r p)"
  by (simp add: sync_def)

lemma sync_write_storage: "tx_data_wr w = Some b \<Longrightarrow> tx_data_storage (sync r w) = b"
  by (simp add: sync_def)

lemma sync_keep_storage: "tx_data_wr p = None \<Longrightarrow> tx_data_storage (sync r p) = tx_data_storage r"
  by (simp add: sync_def)

text \<open>The MSI loop, the sorted items and the published constants.\<close>

lemma msi_loop_enumerate:
  "n + length xs \<le> width \<Longrightarrow>
   msi_loop width (enumerate n xs) s =
     Inr (s\<lparr>constants := constants s @ map (\<lambda>(i, k, v). (k @ ''_INTERRUPT'', int i)) (enumerate n xs),
            irq_wiring := irq_wiring s @ map (\<lambda>(i, k, v). (i, v)) (enumerate n xs)\<rparr>)"
proof (induction xs arbitrary: n s)
  case Nil
  then show ?case by simp
next
  case (Cons x xs)
  obtain k v where x: "x = (k, v)" by (cases x)
  from Cons.prems have "Suc n + length xs \<le> width" and "\<not> width \<le> n" by simp_all
  then show ?case
    using Cons.IH [of "Suc n"] by (simp add: x add_constant_def comb_irq_def)
qed

lemma msi_loop_overflow:
  "xs \<noteq> [] \<Longrightarrow> width < n + length xs \<Longrightarrow> msi_loop width (enumerate n xs) s = Inl IndexError"
proof (induction xs arbitrary: n s)
  case Nil
  then show ?case by simp
next
  case (Cons x xs)
  obtain k v where x: "x = (k, v)" by (cases x)
  show ?case
  proof (cases "width \<le> n")
    case True
    then show ?thesis by (simp add: x)
  next
    case False
    with Cons.prems have "width < Suc n + length xs" and "xs \<noteq> []" by auto
    then show ?thesis using Cons.IH [of "Suc n"] False by (simp add: x)
  qed
qed

lemma sorted_items_perm:
  assumes "distinct (map fst m1)" "distinct (map fst m2)" "set m1 = set m2"
  shows "sorted_items m1 = sorted_items m2"
proof -
  have d1: "distinct m1" and d2: "distinct m2"
    using assms(1,2) by (simp_all add: distinct_map)
  have "mset m1 = mset m2"
    using d1 d2 assms(3) by (simp add: set_eq_iff_mset_eq_distinct)
  then have "mset m1 = mset (sort_key fst m2)" by simp
  moreover have "inj_on fst (set m1)"
    using assms(1) by (simp add: distinct_map)
  moreover have "sorted (map fst (sort_key fst m2))" by simp
  ultimately have "sort_key fst m1 = sort_key fst m2"
    by (rule sort_key_inj_key_eq)
  then show ?thesis by (simp add: sorted_items_def)
qed

lemma names_sorted: "distinct (map fst msis) \<Longrightarrow> sorted_wrt (<) (map fst (sorted_items msis))"
proof -
  assume d: "distinct (map fst msis)"
  have "mset (map fst (sorted_items msis)) = mset (map fst msis)"
    by (simp add: sorted_items_def)
  then have "distinct (map fst (sorted_items msis))"
    using d by (metis mset_eq_imp_distinct_iff)
  moreover have "sorted (map fst (sorted_items msis))"
    by (simp add: sorted_items_def)
  ultimately show ?thesis by (simp add: strict_sorted_iff)
qed

lemma names_set: "set (map fst (sorted_items msis)) = fst ` set msis"
  by (simp add: sorted_items_def)

lemma published_eq:
  "map (\<lambda>(i, k, v). (k @ ''_INTERRUPT'', int i)) (enumerate 0 xs) =
   zip (map (\<lambda>k. k @ ''_INTERRUPT'') (map fst xs)) (map int [0..<length xs])"
  by (rule nth_equalityI) (simp_all add: nth_enumerate_eq split_beta)

lemma wiring_eq:
  "map (\<lambda>(i, k, v). (i, v)) (enumerate 0 xs) = enumerate 0 (map snd xs)"
  by (rule nth_equalityI) (simp_all add: nth_enumerate_eq split_beta)

lemma allocate_msis_ok:
  assumes "length msis \<le> width"
  shows "allocate_msis width msis s =
     Inr (s\<lparr>constants := constants s @
               zip (map (\<lambda>k. k @ ''_INTERRUPT'') (map fst (sorted_items msis)))
                   (map int [0..<length msis]),
            irq_wiring := irq_wiring s @ enumerate 0 (map snd (sorted_items msis))\<rparr>)"
proof -
  have len: "length (sorted_items msis) = length msis"
    by (simp add: sorted_items_def)
  have "0 + length (sorted_items msis) \<le> width"
    using assms len by simp
  then show ?thesis
    unfolding allocate_msis_def
    by (simp only: msi_loop_enumerate published_eq wiring_eq len)
qed

lemma index_lookup:
  assumes d: "distinct names"
    and fresh: "\<forall>k\<in>set names. k @ ''_INTERRUPT'' \<notin> fst ` set cs"
    and j: "j < length names"
  shows "map_of (cs @ zip (map (\<lambda>k. k @ ''_INTERRUPT'') names) (map int [0..<length names]))
           (names ! j @ ''_INTERRUPT'') = Some (int j)"
proof -
  let ?ks = "map (\<lambda>k. k @ ''_INTERRUPT'') names"
  have "names ! j \<in> set names" using j by simp
  with fresh have "map_of cs (names ! j @ ''_INTERRUPT'') = None"
    by (simp add: map_of_eq_None_iff)
  moreover have "distinct ?ks"
    using d by (simp add: distinct_map inj_on_def)
  then have "map_of (zip ?ks (map int [0..<length names])) (?ks ! j) = Some (map int [0..<length names] ! j)"
    using j by (intro map_of_zip_nth) simp_all
  then have "map_of (zip ?ks (map int [0..<length names])) (names ! j @ ''_INTERRUPT'') = Some (int j)"
    using j by simp
  ultimately show ?thesis by (simp add: map_add_def)
qed

lemma index_bij:
  assumes d: "distinct names"
    and f: "\<forall>j<length names. f (names ! j) = int j"
  shows "bij_betw f (set names) {0..<int (length names)}"
  unfolding bij_betw_def
proof
  show "inj_on f (set names)"
  proof (rule inj_onI)
    fix a b assume "a \<in> set names" "b \<in> set names" "f a = f b"
    then obtain i j where "i < length names" "a = names ! i" "j < length names" "b = names ! j"
      by (metis in_set_conv_nth)
    with f \<open>f a = f b\<close> show "a = b" by auto
  qed
  show "f ` set names = {0..<int (length names)}"
  proof (rule set_eqI)
    fix x
    show "x \<in> f ` set names \<longleftrightarrow> x \<in> {0..<int (length names)}"
    proof
      assume "x \<in> f ` set names"
      then obtain j where "j < length names" "x = f (names ! j)"
        by (auto simp add: in_set_conv_nth)
      with f show "x \<in> {0..<int (length names)}" by simp
    next
      assume "x \<in> {0..<int (length names)}"
      then have "nat x < length names" and "int (nat x) = x" by auto
      with f have "f (names ! nat x) = x" by simp
      moreover have "names ! nat x \<in> set names"
        using \<open>nat x < length names\<close> by simp
      ultimately show "x \<in> f ` set names" by (metis imageI)
    qed
  qed
qed

lemma NereidSoC_init_constants:
  assumes "2 \<le> width"
  shows "\<exists>s'. NereidSoC_init width writer_irq reader_irq flag parent = Inr s' \<and>
           constants s' = constants (parent (\<not> flag)) @
             [(''DMA_READER_INTERRUPT'', 0), (''DMA_WRITER_INTERRUPT'', 1)] \<and>
           irq_wiring s' = irq_wiring (parent (\<not> flag)) @ [(0, reader_irq), (1, writer_irq)]"
proof -
  show ?thesis
    using assms
    by (simp add: NereidSoC_init_def NereidSoC_body_def allocate_msis_def sorted_items_def
        Let_def add_csr_def add_constant_def add_interrupt_def comb_irq_def)
qed


lemma NereidSoC_body_perm:
  assumes "distinct (map fst m1)" "distinct (map fst m2)" "set m1 = set m2"
  shows "NereidSoC_body width m1 flag parent = NereidSoC_body width m2 flag parent"
proof -
  have "sorted_items m1 = sorted_items m2"
    using assms by (rule sorted_items_perm)
  then have "allocate_msis width m1 s = allocate_msis width m2 s" for s :: "'a soc"
    by (simp add: allocate_msis_def)
  then show ?thesis
    by (simp add: NereidSoC_body_def)
qed


section \<open>The TX state machine\<close>

text \<open>
  C1, as stated, fails: the claim has the bridge leave \<open>Transmitting\<close> exactly on downstream
  \<open>ready\<close>. In a cycle with both a \<open>tx_valid\<close> write pulse and downstream \<open>ready\<close> the
  \<open>If\<close> branch of line 149 wins and the bridge stays \<open>Transmitting\<close>.
\<close>

theorem tx_fsm_ready_counterexample:
  "tx_state_of \<lparr>source_valid = True, tx_data_storage = 0\<rparr> = Transmitting \<and>
   source_ready \<lparr>rx_ready_re = False, tx_valid_re = True, tx_data_wr = None,
                 sink_valid = False, sink_data = 0, source_ready = True\<rparr> \<and>
   tx_state_of (sync \<lparr>source_valid = True, tx_data_storage = 0\<rparr>
                  \<lparr>rx_ready_re = False, tx_valid_re = True, tx_data_wr = None,
                   sink_valid = False, sink_data = 0, source_ready = True\<rparr>) \<noteq> Idle"
  by (simp add: tx_state_of_def sync_def)

text \<open>
  C1, amended: the TX path is a two-state machine over \<open>uart.source.valid\<close>. From \<open>Idle\<close>
  it moves to \<open>Transmitting\<close> exactly on a \<open>tx_valid\<close> write pulse; from \<open>Transmitting\<close>
  it moves to \<open>Idle\<close> exactly on downstream \<open>ready\<close> in a cycle without a \<open>tx_valid\<close>
  write pulse; a \<open>tx_valid\<close> write pulse while \<open>Transmitting\<close> leaves it \<open>Transmitting\<close>.
  In every other case the state is kept.
\<close>

theorem tx_fsm_transitions:
  "(tx_state_of r = Idle \<longrightarrow>
      (tx_state_of (sync r i) = Transmitting \<longleftrightarrow> tx_valid_re i) \<and>
      (tx_state_of (sync r i) = Idle \<longleftrightarrow> \<not> tx_valid_re i)) \<and>
   (tx_state_of r = Transmitting \<longrightarrow>
      (tx_state_of (sync r i) = Idle \<longleftrightarrow> source_ready i \<and> \<not> tx_valid_re i) \<and>
      (tx_state_of (sync r i) = Transmitting \<longleftrightarrow> tx_valid_re i \<or> \<not> source_ready i))"
  by (simp add: tx_state_of_def sync_def)

theorem tx_fsm_transitions_witness:
  "tx_state_of reset_regs = Idle \<and>
   tx_state_of (sync reset_regs
      \<lparr>rx_ready_re = False, tx_valid_re = True, tx_data_wr = None,
       sink_valid = False, sink_data = 0, source_ready = False\<rparr>) = Transmitting \<and>
   tx_state_of \<lparr>source_valid = True, tx_data_storage = 0\<rparr> = Transmitting \<and>
   tx_state_of (sync \<lparr>source_valid = True, tx_data_storage = 0\<rparr>
      \<lparr>rx_ready_re = False, tx_valid_re = False, tx_data_wr = None,
       sink_valid = False, sink_data = 0, source_ready = True\<rparr>) = Idle"
proof -
  have idle: "tx_state_of reset_regs = Idle"
    by (simp add: tx_state_of_def reset_regs_def)
  have busy: "tx_state_of \<lparr>source_valid = True, tx_data_storage = 0\<rparr> = Transmitting"
    by (simp add: tx_state_of_def)
  show ?thesis
    using idle busy
      tx_fsm_transitions [of reset_regs
        "\<lparr>rx_ready_re = False, tx_valid_re = True, tx_data_wr = None,
          sink_valid = False, sink_data = 0, source_ready = False\<rparr>"]
      tx_fsm_transitions [of "\<lparr>source_valid = True, tx_data_storage = 0\<rparr>"
        "\<lparr>rx_ready_re = False, tx_valid_re = False, tx_data_wr = None,
          sink_valid = False, sink_data = 0, source_ready = True\<rparr>"]
    by simp
qed

text \<open>
  C9: in the clocked update the \<open>tx_valid\<close> write pulse has priority over downstream
  \<open>ready\<close>: with both in one cycle while \<open>Transmitting\<close>, \<open>uart.source.valid\<close> stays 1.
\<close>

theorem tx_valid_priority:
  "source_valid r \<Longrightarrow> tx_valid_re i \<Longrightarrow> source_ready i \<Longrightarrow>
   source_valid (sync r i) \<and> tx_state_of (sync r i) = Transmitting"
  by (simp add: tx_state_of_def sync_def)

theorem tx_valid_priority_witness:
  "source_valid (sync \<lparr>source_valid = True, tx_data_storage = 7\<rparr>
      \<lparr>rx_ready_re = False, tx_valid_re = True, tx_data_wr = None,
       sink_valid = False, sink_data = 0, source_ready = True\<rparr>)"
  using tx_valid_priority [of "\<lparr>source_valid = True, tx_data_storage = 7\<rparr>"
      "\<lparr>rx_ready_re = False, tx_valid_re = True, tx_data_wr = None,
        sink_valid = False, sink_data = 0, source_ready = True\<rparr>"]
  by simp

section \<open>The status bits\<close>

text \<open>
  C2: in every cycle of every run, from any register state (so from reset too), the
  \<open>tx_ready\<close> status bit is the negation of \<open>uart.source.valid\<close>, the pending flag.
\<close>

theorem tx_ready_is_not_pending:
  "map tx_ready_status (outputs r ins) = map (\<lambda>s. \<not> source_valid s) (states r ins)"
  by (induction ins arbitrary: r) (simp_all add: comb_def)

text \<open>
  C8: in every cycle the \<open>rx_valid\<close> status bit is \<open>uart.sink.valid\<close> of that cycle and the
  \<open>rx_data\<close> status is \<open>uart.sink.data\<close> of that cycle, whatever the registers of the
  bridge hold: nothing is buffered.
\<close>

theorem rx_status_mirrors_sink:
  "map rx_valid_status (outputs r ins) = map sink_valid ins \<and>
   map rx_data_status (outputs r ins) = map sink_data ins"
  by (induction ins arbitrary: r) (simp_all add: comb_def)

text \<open>
  C4: in every cycle \<open>uart.sink.ready\<close> is the write strobe of \<open>rx_ready\<close> of that cycle.
  So when the host writes \<open>rx_ready\<close> in cycle \<open>t0\<close> of a run, with \<open>rx_valid\<close> true
  there, and in no other cycle, then \<open>uart.sink.ready\<close> is asserted in cycle \<open>t0\<close> and in
  no other cycle of the run.
\<close>

theorem rx_ack_one_cycle:
  "map sink_ready (outputs r ins) = map rx_ready_re ins \<and>
   (t0 < length ins \<and> rx_ready_re (ins ! t0) \<and> rx_valid_status (outputs r ins ! t0) \<and>
    (\<forall>t<length ins. t \<noteq> t0 \<longrightarrow> \<not> rx_ready_re (ins ! t)) \<longrightarrow>
      (\<forall>t<length ins. sink_ready (outputs r ins ! t) \<longleftrightarrow> t = t0))"
proof
  show "map sink_ready (outputs r ins) = map rx_ready_re ins"
    by (induction ins arbitrary: r) (simp_all add: comb_def)
  show "t0 < length ins \<and> rx_ready_re (ins ! t0) \<and> rx_valid_status (outputs r ins ! t0) \<and>
    (\<forall>t<length ins. t \<noteq> t0 \<longrightarrow> \<not> rx_ready_re (ins ! t)) \<longrightarrow>
      (\<forall>t<length ins. sink_ready (outputs r ins ! t) \<longleftrightarrow> t = t0)"
    by (auto simp add: outputs_nth comb_def)
qed

theorem rx_ack_one_cycle_witness:
  "sink_ready (outputs reset_regs
      [\<lparr>rx_ready_re = False, tx_valid_re = False, tx_data_wr = None,
        sink_valid = True, sink_data = 0x41, source_ready = False\<rparr>,
       \<lparr>rx_ready_re = True, tx_valid_re = False, tx_data_wr = None,
        sink_valid = True, sink_data = 0x41, source_ready = False\<rparr>,
       \<lparr>rx_ready_re = False, tx_valid_re = False, tx_data_wr = None,
        sink_valid = False, sink_data = 0, source_ready = False\<rparr>] ! 1) \<and>
   \<not> sink_ready (outputs reset_regs
      [\<lparr>rx_ready_re = False, tx_valid_re = False, tx_data_wr = None,
        sink_valid = True, sink_data = 0x41, source_ready = False\<rparr>,
       \<lparr>rx_ready_re = True, tx_valid_re = False, tx_data_wr = None,
        sink_valid = True, sink_data = 0x41, source_ready = False\<rparr>,
       \<lparr>rx_ready_re = False, tx_valid_re = False, tx_data_wr = None,
        sink_valid = False, sink_data = 0, source_ready = False\<rparr>] ! 0) \<and>
   \<not> sink_ready (outputs reset_regs
      [\<lparr>rx_ready_re = False, tx_valid_re = False, tx_data_wr = None,
        sink_valid = True, sink_data = 0x41, source_ready = False\<rparr>,
       \<lparr>rx_ready_re = True, tx_valid_re = False, tx_data_wr = None,
        sink_valid = True, sink_data = 0x41, source_ready = False\<rparr>,
       \<lparr>rx_ready_re = False, tx_valid_re = False, tx_data_wr = None,
        sink_valid = False, sink_data = 0, source_ready = False\<rparr>] ! 2)"
proof -
  let ?a = "\<lparr>rx_ready_re = False, tx_valid_re = False, tx_data_wr = None,
        sink_valid = True, sink_data = 0x41, source_ready = False\<rparr>"
  let ?b = "\<lparr>rx_ready_re = True, tx_valid_re = False, tx_data_wr = None,
        sink_valid = True, sink_data = 0x41, source_ready = False\<rparr>"
  let ?c = "\<lparr>rx_ready_re = False, tx_valid_re = False, tx_data_wr = None,
        sink_valid = False, sink_data = 0, source_ready = False\<rparr>"
  have h1: "(1::nat) < length [?a, ?b, ?c]" by simp
  have h2: "rx_ready_re ([?a, ?b, ?c] ! 1)" by simp
  have h3: "rx_valid_status (outputs reset_regs [?a, ?b, ?c] ! 1)"
    by (simp add: comb_def)
  have h4: "\<forall>t<length [?a, ?b, ?c]. t \<noteq> 1 \<longrightarrow> \<not> rx_ready_re ([?a, ?b, ?c] ! t)"
    by (simp add: less_Suc_eq nth_Cons')
  have all: "\<forall>t<length [?a, ?b, ?c]. sink_ready (outputs reset_regs [?a, ?b, ?c] ! t) \<longleftrightarrow> t = 1"
    by (rule rx_ack_one_cycle [THEN conjunct2, THEN mp]) (intro conjI h1 h2 h3 h4)
  have "sink_ready (outputs reset_regs [?a, ?b, ?c] ! 1)"
    using all h1 by blast
  moreover have "\<not> sink_ready (outputs reset_regs [?a, ?b, ?c] ! 0)"
    using all by (metis length_Cons zero_less_Suc zero_neq_one)
  moreover have "\<not> sink_ready (outputs reset_regs [?a, ?b, ?c] ! 2)"
  proof -
    have "(2::nat) < length [?a, ?b, ?c]" by simp
    with all show ?thesis by (metis numeral_eq_one_iff semiring_norm(85))
  qed
  ultimately show ?thesis by blast
qed

section \<open>Delivery of a transmitted byte\<close>

text \<open>
  C3: the host writes \<open>b\<close> to \<open>tx_data\<close> (cycle \<open>w\<close>), leaves \<open>tx_data\<close> alone for the
  cycles \<open>gap\<close>, and pulses \<open>tx_valid\<close> (cycle \<open>p\<close>) while \<open>tx_ready\<close> reads true. It
  writes nothing further. Downstream is not ready during the cycles \<open>waits\<close> and ready in
  the cycle \<open>fin\<close>. Then in each cycle after the pulse, up to and including the one in
  which \<open>ready\<close> is observed, the downstream channel has \<open>valid = 1\<close> and \<open>data = b\<close>, and in
  the cycle after that \<open>tx_ready\<close> reads true again.
\<close>

theorem tx_byte_delivery:
  assumes wr: "tx_data_wr w = Some b"
    and gap: "\<forall>g\<in>set gap. tx_data_wr g = None"
    and pulse: "tx_valid_re p" "tx_data_wr p = None"
    and ready: "tx_ready_status (comb (run r (w # gap)) p)"
    and waits: "\<forall>x\<in>set waits. \<not> tx_valid_re x \<and> tx_data_wr x = None \<and> \<not> source_ready x"
    and fin: "source_ready fin" "\<not> tx_valid_re fin" "tx_data_wr fin = None"
  shows "(\<forall>k\<le>length waits.
            source_valid (run r (w # gap @ p # take k waits)) \<and>
            source_data (comb (run r (w # gap @ p # take k waits)) x) = b) \<and>
         tx_ready_status (comb (run r (w # gap @ p # waits @ [fin])) y)"
proof -
  define r1 where "r1 = run r (w # gap)"
  define r2 where "r2 = sync r1 p"
  have st1: "tx_data_storage r1 = b"
    unfolding r1_def using wr gap
    by (simp add: run_storage_unwritten sync_write_storage)
  have st2: "tx_data_storage r2 = b"
    unfolding r2_def using pulse(2) st1 by (simp add: sync_keep_storage)
  have v2: "source_valid r2"
    unfolding r2_def using pulse(1) by (rule sync_pulse_valid)
  have held: "source_valid (run r2 (take k waits)) \<and> tx_data_storage (run r2 (take k waits)) = b"
    for k
  proof -
    have sub: "\<forall>x\<in>set (take k waits). \<not> tx_valid_re x \<and> tx_data_wr x = None \<and> \<not> source_ready x"
      using waits by (meson in_set_takeD)
    from sub have "source_valid (run r2 (take k waits))"
      using v2 by (simp add: run_valid_held)
    moreover from sub have "tx_data_storage (run r2 (take k waits)) = b"
      using st2 by (simp add: run_storage_unwritten)
    ultimately show ?thesis by simp
  qed
  have shape: "run r (w # gap @ p # ins) = run r2 ins" for ins
    by (simp add: r1_def r2_def)
  have part1: "\<forall>k\<le>length waits.
      source_valid (run r (w # gap @ p # take k waits)) \<and>
      source_data (comb (run r (w # gap @ p # take k waits)) x) = b"
    using held by (simp add: shape comb_def del: run_Cons run_append)
  have "\<not> source_valid (sync (run r2 waits) fin)"
    using fin by (simp add: sync_def)
  then have "\<not> source_valid (run r2 (waits @ [fin]))"
    by simp
  then have part2: "tx_ready_status (comb (run r (w # gap @ p # waits @ [fin])) y)"
    unfolding shape comb_def by simp
  from part1 part2 show ?thesis by blast
qed

theorem tx_byte_delivery_witness:
  "source_valid (run reset_regs
     [\<lparr>rx_ready_re = False, tx_valid_re = False, tx_data_wr = Some 0x41,
       sink_valid = False, sink_data = 0, source_ready = False\<rparr>,
      \<lparr>rx_ready_re = False, tx_valid_re = True, tx_data_wr = None,
       sink_valid = False, sink_data = 0, source_ready = False\<rparr>,
      \<lparr>rx_ready_re = False, tx_valid_re = False, tx_data_wr = None,
       sink_valid = False, sink_data = 0, source_ready = False\<rparr>]) \<and>
   source_data (comb (run reset_regs
     [\<lparr>rx_ready_re = False, tx_valid_re = False, tx_data_wr = Some 0x41,
       sink_valid = False, sink_data = 0, source_ready = False\<rparr>,
      \<lparr>rx_ready_re = False, tx_valid_re = True, tx_data_wr = None,
       sink_valid = False, sink_data = 0, source_ready = False\<rparr>,
      \<lparr>rx_ready_re = False, tx_valid_re = False, tx_data_wr = None,
       sink_valid = False, sink_data = 0, source_ready = False\<rparr>])
     \<lparr>rx_ready_re = False, tx_valid_re = False, tx_data_wr = None,
       sink_valid = False, sink_data = 0, source_ready = True\<rparr>) = 0x41 \<and>
   tx_ready_status (comb (run reset_regs
     [\<lparr>rx_ready_re = False, tx_valid_re = False, tx_data_wr = Some 0x41,
       sink_valid = False, sink_data = 0, source_ready = False\<rparr>,
      \<lparr>rx_ready_re = False, tx_valid_re = True, tx_data_wr = None,
       sink_valid = False, sink_data = 0, source_ready = False\<rparr>,
      \<lparr>rx_ready_re = False, tx_valid_re = False, tx_data_wr = None,
       sink_valid = False, sink_data = 0, source_ready = False\<rparr>,
      \<lparr>rx_ready_re = False, tx_valid_re = False, tx_data_wr = None,
       sink_valid = False, sink_data = 0, source_ready = True\<rparr>])
     \<lparr>rx_ready_re = False, tx_valid_re = False, tx_data_wr = None,
       sink_valid = False, sink_data = 0, source_ready = False\<rparr>)"
proof -
  let ?w = "\<lparr>rx_ready_re = False, tx_valid_re = False, tx_data_wr = Some (0x41 :: 8 word),
       sink_valid = False, sink_data = 0, source_ready = False\<rparr>"
  let ?p = "\<lparr>rx_ready_re = False, tx_valid_re = True, tx_data_wr = None,
       sink_valid = False, sink_data = 0, source_ready = False\<rparr>"
  let ?n = "\<lparr>rx_ready_re = False, tx_valid_re = False, tx_data_wr = None,
       sink_valid = False, sink_data = 0, source_ready = False\<rparr>"
  let ?f = "\<lparr>rx_ready_re = False, tx_valid_re = False, tx_data_wr = None,
       sink_valid = False, sink_data = 0, source_ready = True\<rparr>"
  have h1: "tx_data_wr ?w = Some 0x41" by simp
  have h2: "\<forall>g\<in>set []. tx_data_wr g = None" by simp
  have h3: "tx_valid_re ?p" by simp
  have h4: "tx_data_wr ?p = None" by simp
  have h5: "tx_ready_status (comb (run reset_regs (?w # [])) ?p)"
    by (simp add: comb_def sync_def reset_regs_def)
  have h6: "\<forall>x\<in>set [?n]. \<not> tx_valid_re x \<and> tx_data_wr x = None \<and> \<not> source_ready x"
    by simp
  have h7: "source_ready ?f" by simp
  have h8: "\<not> tx_valid_re ?f" by simp
  have h9: "tx_data_wr ?f = None" by simp
  note main = tx_byte_delivery [OF h1 h2 h3 h4 h5 h6 h7 h8 h9, of ?f ?n]
  from main have a: "source_valid (run reset_regs (?w # [] @ ?p # take 1 [?n])) \<and>
      source_data (comb (run reset_regs (?w # [] @ ?p # take 1 [?n])) ?f) = 0x41"
    by (metis length_Cons list.size(3) One_nat_def order_refl)
  from main have b: "tx_ready_status (comb (run reset_regs (?w # [] @ ?p # [?n] @ [?f])) ?n)"
    by blast
  from a b show ?thesis by simp
qed

text \<open>
  C10: in every cycle the downstream data line is the \<open>tx_data\<close> storage register of that
  cycle; nothing is captured at the \<open>tx_valid\<close> pulse. So a bus write of \<open>b'\<close> to
  \<open>tx_data\<close> while a transmission is pending puts \<open>b'\<close> on the data line from the next
  cycle on, and the transfer is still in flight then unless downstream \<open>ready\<close> ended it
  in the cycle of the write (with no new \<open>tx_valid\<close> pulse).
\<close>

theorem tx_data_not_latched:
  "map source_data (outputs r ins) = map tx_data_storage (states r ins) \<and>
   (source_valid r \<and> tx_data_wr i = Some b' \<longrightarrow>
      source_data (comb (sync r i) j) = b' \<and>
      (source_valid (sync r i) \<longleftrightarrow> tx_valid_re i \<or> \<not> source_ready i))"
proof
  show "map source_data (outputs r ins) = map tx_data_storage (states r ins)"
    by (induction ins arbitrary: r) (simp_all add: comb_def)
  show "source_valid r \<and> tx_data_wr i = Some b' \<longrightarrow>
      source_data (comb (sync r i) j) = b' \<and>
      (source_valid (sync r i) \<longleftrightarrow> tx_valid_re i \<or> \<not> source_ready i)"
    by (simp add: comb_def sync_def)
qed

theorem tx_data_not_latched_witness:
  "source_data (comb \<lparr>source_valid = True, tx_data_storage = 0x41\<rparr>
      \<lparr>rx_ready_re = False, tx_valid_re = False, tx_data_wr = Some 0x42,
       sink_valid = False, sink_data = 0, source_ready = False\<rparr>) = 0x41 \<and>
   source_valid (sync \<lparr>source_valid = True, tx_data_storage = 0x41\<rparr>
      \<lparr>rx_ready_re = False, tx_valid_re = False, tx_data_wr = Some 0x42,
       sink_valid = False, sink_data = 0, source_ready = False\<rparr>) \<and>
   source_data (comb (sync \<lparr>source_valid = True, tx_data_storage = 0x41\<rparr>
      \<lparr>rx_ready_re = False, tx_valid_re = False, tx_data_wr = Some 0x42,
       sink_valid = False, sink_data = 0, source_ready = False\<rparr>)
      \<lparr>rx_ready_re = False, tx_valid_re = False, tx_data_wr = None,
       sink_valid = False, sink_data = 0, source_ready = True\<rparr>) = 0x42"
proof -
  let ?r = "\<lparr>source_valid = True, tx_data_storage = (0x41 :: 8 word)\<rparr>"
  let ?i = "\<lparr>rx_ready_re = False, tx_valid_re = False, tx_data_wr = Some (0x42 :: 8 word),
       sink_valid = False, sink_data = 0, source_ready = False\<rparr>"
  let ?j = "\<lparr>rx_ready_re = False, tx_valid_re = False, tx_data_wr = None,
       sink_valid = False, sink_data = 0, source_ready = True\<rparr>"
  have pre: "source_valid ?r \<and> tx_data_wr ?i = Some 0x42" by simp
  have now: "source_data (comb ?r ?i) = 0x41" by (simp add: comb_def)
  from pre now tx_data_not_latched [of ?r "[]" ?i "0x42" ?j]
  show ?thesis by simp
qed

section \<open>Interrupt index allocation\<close>

text \<open>
  C5: for a dict of interrupt sources (distinct names, no more sources than MSI lines,
  constant names not yet taken) the allocator succeeds; it takes the names in strictly
  ascending lexicographic order, publishes for the \<open>j\<close>-th of them the constant
  \<open>name_INTERRUPT = j\<close>, and the published indices are a bijection from the names onto
  \<open>{0..N-1}\<close>. For the dict of the source, \<open>{"DMA_WRITER", "DMA_READER"}\<close>, it publishes
  \<open>DMA_READER_INTERRUPT = 0\<close> and \<open>DMA_WRITER_INTERRUPT = 1\<close> and wires line 0 to the
  reader's and line 1 to the writer's interrupt.
\<close>

theorem interrupt_allocation:
  "(distinct (map fst msis) \<and> length msis \<le> width \<and>
    (\<forall>k\<in>fst ` set msis. k @ ''_INTERRUPT'' \<notin> fst ` set (constants s)) \<longrightarrow>
      (\<exists>s'. allocate_msis width msis s = Inr s' \<and>
         sorted_wrt (<) (map fst (sorted_items msis)) \<and>
         set (map fst (sorted_items msis)) = fst ` set msis \<and>
         constants s' = constants s @
           zip (map (\<lambda>k. k @ ''_INTERRUPT'') (map fst (sorted_items msis)))
               (map int [0..<length msis]) \<and>
         (\<forall>j<length msis. interrupt_index s' (map fst (sorted_items msis) ! j) = Some (int j)) \<and>
         bij_betw (\<lambda>k. the (interrupt_index s' k)) (fst ` set msis) {0..<int (length msis)})) \<and>
   (2 \<le> width \<longrightarrow>
      (\<exists>s'. NereidSoC_init width writer_irq reader_irq flag parent = Inr s' \<and>
         constants s' = constants (parent (\<not> flag)) @
           [(''DMA_READER_INTERRUPT'', 0), (''DMA_WRITER_INTERRUPT'', 1)] \<and>
         irq_wiring s' = irq_wiring (parent (\<not> flag)) @ [(0, reader_irq), (1, writer_irq)]))"
proof (intro conjI impI)
  assume "2 \<le> width"
  then show "\<exists>s'. NereidSoC_init width writer_irq reader_irq flag parent = Inr s' \<and>
         constants s' = constants (parent (\<not> flag)) @
           [(''DMA_READER_INTERRUPT'', 0), (''DMA_WRITER_INTERRUPT'', 1)] \<and>
         irq_wiring s' = irq_wiring (parent (\<not> flag)) @ [(0, reader_irq), (1, writer_irq)]"
    by (rule NereidSoC_init_constants)
next
  let ?names = "map fst (sorted_items msis)"
  assume a: "distinct (map fst msis) \<and> length msis \<le> width \<and>
    (\<forall>k\<in>fst ` set msis. k @ ''_INTERRUPT'' \<notin> fst ` set (constants s))"
  define s' where "s' = s\<lparr>constants := constants s @
               zip (map (\<lambda>k. k @ ''_INTERRUPT'') ?names) (map int [0..<length msis]),
            irq_wiring := irq_wiring s @ enumerate 0 (map snd (sorted_items msis))\<rparr>"
  have len: "length ?names = length msis" by (simp add: sorted_items_def)
  have alloc: "allocate_msis width msis s = Inr s'"
    using a by (simp only: allocate_msis_ok s'_def)
  have srt: "sorted_wrt (<) ?names" using a by (simp only: names_sorted)
  then have dist: "distinct ?names" by (simp add: strict_sorted_iff)
  have st: "set ?names = fst ` set msis" by (rule names_set)
  have cs: "constants s' = constants s @
           zip (map (\<lambda>k. k @ ''_INTERRUPT'') ?names) (map int [0..<length msis])"
    by (simp add: s'_def)
  have fresh: "\<forall>k\<in>set ?names. k @ ''_INTERRUPT'' \<notin> fst ` set (constants s)"
    using a st by simp
  have idx: "\<forall>j<length msis. interrupt_index s' (?names ! j) = Some (int j)"
  proof (intro allI impI)
    fix j assume "j < length msis"
    then have "j < length ?names" by (simp only: len)
    from index_lookup [OF dist fresh this]
    show "interrupt_index s' (?names ! j) = Some (int j)"
      by (simp only: interrupt_index_def cs len)
  qed
  have f: "\<forall>j<length ?names. the (interrupt_index s' (?names ! j)) = int j"
  proof (intro allI impI)
    fix j assume "j < length ?names"
    then have "j < length msis" by (simp only: len)
    with idx show "the (interrupt_index s' (?names ! j)) = int j" by simp
  qed
  have "bij_betw (\<lambda>k. the (interrupt_index s' k)) (set ?names) {0..<int (length ?names)}"
    using dist f by (rule index_bij [where f = "\<lambda>k. the (interrupt_index s' k)"])
  then have bij: "bij_betw (\<lambda>k. the (interrupt_index s' k)) (fst ` set msis) {0..<int (length msis)}"
    by (simp only: st len)
  from alloc srt st cs idx bij
  show "\<exists>s'. allocate_msis width msis s = Inr s' \<and>
         sorted_wrt (<) ?names \<and>
         set ?names = fst ` set msis \<and>
         constants s' = constants s @
           zip (map (\<lambda>k. k @ ''_INTERRUPT'') ?names) (map int [0..<length msis]) \<and>
         (\<forall>j<length msis. interrupt_index s' (?names ! j) = Some (int j)) \<and>
         bij_betw (\<lambda>k. the (interrupt_index s' k)) (fst ` set msis) {0..<int (length msis)}"
    by blast
qed

theorem interrupt_allocation_witness:
  "distinct (map fst [(''DMA_WRITER'', ''writer''), (''DMA_READER'', ''reader'')]) \<and>
   length [(''DMA_WRITER'', ''writer''), (''DMA_READER'', ''reader'')] \<le> 32 \<and>
   (\<exists>s'. allocate_msis 32 [(''DMA_WRITER'', ''writer''), (''DMA_READER'', ''reader'')]
            \<lparr>csrs = [], constants = [], interrupts = [], irq_wiring = [],
             integrated_main_ram_size = 0\<rparr> = Inr s' \<and>
          interrupt_index s' ''DMA_READER'' = Some 0 \<and>
          interrupt_index s' ''DMA_WRITER'' = Some 1)"
proof -
  let ?m = "[(''DMA_WRITER'', ''writer''), (''DMA_READER'', ''reader'')]"
  let ?s = "\<lparr>csrs = [], constants = [], interrupts = [], irq_wiring = [],
             integrated_main_ram_size = 0\<rparr> :: string soc"
  have h: "distinct (map fst ?m) \<and> length ?m \<le> 32 \<and>
      (\<forall>k\<in>fst ` set ?m. k @ ''_INTERRUPT'' \<notin> fst ` set (constants ?s))"
    by simp
  have names: "map fst (sorted_items ?m) = [''DMA_READER'', ''DMA_WRITER'']"
    by (simp add: sorted_items_def)
  note main = interrupt_allocation [of ?m 32 ?s, THEN conjunct1, rule_format, OF h]
  then obtain s' where s': "allocate_msis 32 ?m ?s = Inr s'"
    and idx: "\<forall>j<length ?m. interrupt_index s' (map fst (sorted_items ?m) ! j) = Some (int j)"
    by (elim exE conjE)
  from idx [unfolded names, rule_format, of 0] have "interrupt_index s' ''DMA_READER'' = Some 0"
    by simp
  moreover from idx [unfolded names, rule_format, of 1] have "interrupt_index s' ''DMA_WRITER'' = Some 1"
    by simp
  ultimately show ?thesis using s' h by simp
qed

section \<open>Configuration errors of the platform constructor\<close>

text \<open>
  C6: with a device outside the supported list, or a revision other than "1.7" and "2.0",
  \<open>Platform.__init__\<close> fails with an assertion error at once: the parent constructor is
  not reached and the world is as it was. For every valid pair of device and revision
  its own checks and its table lookup raise nothing: it hands the device name, the pins
  of the revision and the toolchain to the parent constructor, and its outcome is the
  parent's, so it succeeds whenever the parent constructor does.
\<close>

theorem platform_selector_check:
  "(device \<notin> set [''LFE5U-12F'', ''LFE5U-25F'', ''LFE5U-45F'', ''LFE5U-85F''] \<or>
    revision \<notin> set [''1.7'', ''2.0''] \<longrightarrow>
      Platform_init L io_common io_1_7 io_2_0 device revision toolchain w =
        (Inl AssertionError, w)) \<and>
   (device \<in> set [''LFE5U-12F'', ''LFE5U-25F'', ''LFE5U-45F'', ''LFE5U-85F''] \<and>
    revision \<in> set [''1.7'', ''2.0''] \<longrightarrow>
      Platform_init L io_common io_1_7 io_2_0 device revision toolchain w =
        L (device @ ''-6BG381C'')
          (io_common @ (if revision = ''1.7'' then io_1_7 else io_2_0)) toolchain w) \<and>
   (device \<in> set [''LFE5U-12F'', ''LFE5U-25F'', ''LFE5U-45F'', ''LFE5U-85F''] \<and>
    revision \<in> set [''1.7'', ''2.0''] \<and>
    L (device @ ''-6BG381C'')
      (io_common @ (if revision = ''1.7'' then io_1_7 else io_2_0)) toolchain w = (Inr p, w') \<longrightarrow>
      Platform_init L io_common io_1_7 io_2_0 device revision toolchain w = (Inr p, w'))"
  by (auto simp add: Platform_init_def)

theorem platform_selector_check_witness:
  "Platform_init (\<lambda>d io t w. (Inr (d, io, t), w @ [d]))
      [''clk25''] [''sdcard_1_7''] [''sdcard_2_0''] ''LFE5U-45F'' ''3.0'' ''trellis'' []
     = (Inl AssertionError, []) \<and>
   Platform_init (\<lambda>d io t w. (Inr (d, io, t), w @ [d]))
      [''clk25''] [''sdcard_1_7''] [''sdcard_2_0''] ''LFE5U-45F'' ''2.0'' ''trellis'' []
     = (Inr (''LFE5U-45F-6BG381C'', [''clk25'', ''sdcard_2_0''], ''trellis''),
        [''LFE5U-45F-6BG381C''])"
  using
    platform_selector_check [of "''LFE5U-45F''" "''3.0''"
      "\<lambda>d io t w. (Inr (d, io, t), w @ [d])"
      "[''clk25'']" "[''sdcard_1_7'']" "[''sdcard_2_0'']" "''trellis''" "[]"]
    platform_selector_check [of "''LFE5U-45F''" "''2.0''"
      "\<lambda>d io t w. (Inr (d, io, t), w @ [d])"
      "[''clk25'']" "[''sdcard_1_7'']" "[''sdcard_2_0'']" "''trellis''" "[]"]
  by simp


section \<open>Determinism of the composition\<close>

text \<open>
  C7: the composition is a function of its inputs, and its result does not depend on the
  order in which the dict of interrupt sources holds its items: two dicts with the same
  items give the same outcome, hence the same CSR list, the same constants in the same
  order, and the same generated header. For the dict of the source the result is given
  in closed form.
\<close>

theorem composition_deterministic:
  "(distinct (map fst m1) \<and> distinct (map fst m2) \<and> set m1 = set m2 \<longrightarrow>
      NereidSoC_body width m1 flag parent = NereidSoC_body width m2 flag parent \<and>
      (\<forall>s1 s2. NereidSoC_body width m1 flag parent = Inr s1 \<and>
               NereidSoC_body width m2 flag parent = Inr s2 \<longrightarrow>
               csrs s1 = csrs s2 \<and> constants s1 = constants s2 \<and>
               generate_software_header h s1 = generate_software_header h s2)) \<and>
   NereidSoC_init width writer_irq reader_irq flag parent =
     NereidSoC_body width [(''DMA_READER'', reader_irq), (''DMA_WRITER'', writer_irq)] flag parent \<and>
   (2 \<le> width \<longrightarrow>
      NereidSoC_init width writer_irq reader_irq flag parent =
        Inr ((parent (\<not> flag))
          \<lparr>csrs := csrs (parent (\<not> flag)) @
              [''crg'', ''dna'', ''xadc'', ''pcie_phy'', ''pcie_dma'', ''pcie_msi''] @
              (if flag then [''uart'', ''pcie_uart''] else []),
           constants := constants (parent (\<not> flag)) @
              [(''DMA_READER_INTERRUPT'', 0), (''DMA_WRITER_INTERRUPT'', 1)],
           interrupts := interrupts (parent (\<not> flag)) @ (if flag then [''uart''] else []),
           irq_wiring := irq_wiring (parent (\<not> flag)) @ [(0, reader_irq), (1, writer_irq)],
           integrated_main_ram_size := 0x10000\<rparr>))"
proof (intro conjI impI)
  assume a: "distinct (map fst m1) \<and> distinct (map fst m2) \<and> set m1 = set m2"
  then show eq: "NereidSoC_body width m1 flag parent = NereidSoC_body width m2 flag parent"
    by (simp only: NereidSoC_body_perm)
  show "\<forall>s1 s2. NereidSoC_body width m1 flag parent = Inr s1 \<and>
               NereidSoC_body width m2 flag parent = Inr s2 \<longrightarrow>
               csrs s1 = csrs s2 \<and> constants s1 = constants s2 \<and>
               generate_software_header h s1 = generate_software_header h s2"
    using eq by auto
next
  show "NereidSoC_init width writer_irq reader_irq flag parent =
     NereidSoC_body width [(''DMA_READER'', reader_irq), (''DMA_WRITER'', writer_irq)] flag parent"
    unfolding NereidSoC_init_def
    by (rule NereidSoC_body_perm) auto
next
  assume "2 \<le> width"
  then show "NereidSoC_init width writer_irq reader_irq flag parent =
        Inr ((parent (\<not> flag))
          \<lparr>csrs := csrs (parent (\<not> flag)) @
              [''crg'', ''dna'', ''xadc'', ''pcie_phy'', ''pcie_dma'', ''pcie_msi''] @
              (if flag then [''uart'', ''pcie_uart''] else []),
           constants := constants (parent (\<not> flag)) @
              [(''DMA_READER_INTERRUPT'', 0), (''DMA_WRITER_INTERRUPT'', 1)],
           interrupts := interrupts (parent (\<not> flag)) @ (if flag then [''uart''] else []),
           irq_wiring := irq_wiring (parent (\<not> flag)) @ [(0, reader_irq), (1, writer_irq)],
           integrated_main_ram_size := 0x10000\<rparr>)"
    by (simp add: NereidSoC_init_def NereidSoC_body_def allocate_msis_def sorted_items_def
        Let_def add_csr_def add_constant_def add_interrupt_def comb_irq_def)
qed

theorem composition_deterministic_witness:
  "NereidSoC_body 32 [(''DMA_WRITER'', ''writer''), (''DMA_READER'', ''reader'')] True
      (\<lambda>u. \<lparr>csrs = [''ctrl''], constants = [], interrupts = [], irq_wiring = [],
             integrated_main_ram_size = 0\<rparr>) =
   NereidSoC_body 32 [(''DMA_READER'', ''reader''), (''DMA_WRITER'', ''writer'')] True
      (\<lambda>u. \<lparr>csrs = [''ctrl''], constants = [], interrupts = [], irq_wiring = [],
             integrated_main_ram_size = 0\<rparr>) \<and>
   NereidSoC_init 32 ''writer'' ''reader'' True
      (\<lambda>u. \<lparr>csrs = [''ctrl''], constants = [], interrupts = [], irq_wiring = [],
             integrated_main_ram_size = 0\<rparr>) =
   Inr \<lparr>csrs = [''ctrl'', ''crg'', ''dna'', ''xadc'', ''pcie_phy'', ''pcie_dma'', ''pcie_msi'',
                ''uart'', ''pcie_uart''],
        constants = [(''DMA_READER_INTERRUPT'', 0), (''DMA_WRITER_INTERRUPT'', 1)],
        interrupts = [''uart''],
        irq_wiring = [(0, ''reader''), (1, ''writer'')],
        integrated_main_ram_size = 0x10000\<rparr>"
proof -
  let ?m1 = "[(''DMA_WRITER'', ''writer''), (''DMA_READER'', ''reader'')]"
  let ?m2 = "[(''DMA_READER'', ''reader''), (''DMA_WRITER'', ''writer'')]"
  let ?p = "\<lambda>u::bool. \<lparr>csrs = [''ctrl''], constants = [], interrupts = [], irq_wiring = [],
             integrated_main_ram_size = 0\<rparr> :: string soc"
  have h: "distinct (map fst ?m1) \<and> distinct (map fst ?m2) \<and> set ?m1 = set ?m2"
    by auto
  have w: "(2::nat) \<le> 32" by simp
  note main = composition_deterministic [of ?m1 ?m2 32 True ?p _ "''writer''" "''reader''"]
  from main [THEN conjunct1, rule_format, OF h]
  have a: "NereidSoC_body 32 ?m1 True ?p = NereidSoC_body 32 ?m2 True ?p"
    by (rule conjunct1)
  from main [THEN conjunct2, THEN conjunct2, rule_format, OF w] have b: "NereidSoC_init 32 ''writer'' ''reader'' True ?p =
   Inr \<lparr>csrs = [''ctrl'', ''crg'', ''dna'', ''xadc'', ''pcie_phy'', ''pcie_dma'', ''pcie_msi'',
                ''uart'', ''pcie_uart''],
        constants = [(''DMA_READER_INTERRUPT'', 0), (''DMA_WRITER_INTERRUPT'', 1)],
        interrupts = [''uart''],
        irq_wiring = [(0, ''reader''), (1, ''writer'')],
        integrated_main_ram_size = 0x10000\<rparr>"
    by simp
  from a b show ?thesis by blast
qed

end
